theory Spec2Isabelle
  imports Main "HOL-Library.Sublist"
begin

section \<open>Data frames\<close>

text \<open>
  The program works on pandas data frames. A frame has a list of column names and a list
  of rows; every row carries its index label (pandas keeps the labels of the rows that
  survive a filter) and one cell per column. A cell is either a value or null: pandas'
  \<open>None\<close> and \<open>NaN\<close> are both the absent cell \<open>None\<close> here, and \<open>isnull\<close>, \<open>dropna\<close> and
  \<open>duplicated\<close> all treat them alike (two null cells of a column count as equal when
  rows are compared by \<open>duplicated\<close>). Present values are compared by equality.
\<close>

datatype scalar = Num int | Str string

type_synonym cell = "scalar option"

record frame =
  columns :: "string list"
  rows :: "(nat \<times> cell list) list"

text \<open>A pandas frame is rectangular: every row has one cell per column.\<close>

definition rectangular :: "frame \<Rightarrow> bool" where
  "rectangular df = list_all (\<lambda>r. length (snd r) = length (columns df)) (rows df)"

text \<open>\<open>len(df)\<close> is the number of rows.\<close>

definition len :: "frame \<Rightarrow> nat" where
  "len df = length (rows df)"

text \<open>\<open>df.empty\<close>: one of the two axes has length 0.\<close>

definition empty :: "frame \<Rightarrow> bool" where
  "empty df = (columns df = [] \<or> rows df = [])"

text \<open>\<open>df.isnull()\<close> and its complement \<open>notna\<close>: one boolean per cell.\<close>

definition isnull :: "frame \<Rightarrow> bool list list" where
  "isnull df = map (\<lambda>r. map (\<lambda>c. c = None) (snd r)) (rows df)"

definition notna :: "frame \<Rightarrow> bool list list" where
  "notna df = map (\<lambda>r. map (\<lambda>c. c \<noteq> None) (snd r)) (rows df)"

text \<open>\<open>.any(axis=1)\<close> and \<open>.all(axis=1)\<close> reduce every row of booleans.\<close>

definition any_axis1 :: "bool list list \<Rightarrow> bool list" where
  "any_axis1 m = map (list_ex id) m"

definition all_axis1 :: "bool list list \<Rightarrow> bool list" where
  "all_axis1 m = map (list_all id) m"

text \<open>\<open>.sum()\<close> of a boolean series counts the \<open>True\<close> entries.\<close>

definition sum_bools :: "bool list \<Rightarrow> nat" where
  "sum_bools bs = length (filter id bs)"

text \<open>\<open>.sum()\<close> of a boolean frame with \<open>n\<close> columns: one count per column.\<close>

definition sum_axis0 :: "nat \<Rightarrow> bool list list \<Rightarrow> nat list" where
  "sum_axis0 n m = map (\<lambda>j. sum_bools (map (\<lambda>r. r ! j) m)) [0..<n]"

text \<open>
  \<open>Series.to_dict()\<close> inserts the entries in order into a dictionary, so a later entry
  with the same key replaces an earlier one.
\<close>

definition to_dict :: "string list \<Rightarrow> nat list \<Rightarrow> (string \<rightharpoonup> nat)" where
  "to_dict ks vs = fold (\<lambda>kv m. m(fst kv \<mapsto> snd kv)) (zip ks vs) Map.empty"

text \<open>Selecting rows by a boolean mask, \<open>df[mask]\<close>: the rows whose entry is \<open>True\<close>.\<close>

definition boolean_mask :: "bool list \<Rightarrow> frame \<Rightarrow> frame" where
  "boolean_mask flags df = df\<lparr>rows := map fst (filter snd (zip (rows df) flags))\<rparr>"

text \<open>
  \<open>df.duplicated()\<close> with \<open>keep='first'\<close>: pandas returns an empty series for an empty
  frame; otherwise it walks over the rows, remembering the cell tuples met so far, and
  flags a row whose cells were met before. Index labels are not compared.
\<close>

fun duplicated_scan :: "cell list list \<Rightarrow> cell list list \<Rightarrow> bool list" where
  "duplicated_scan seen [] = []"
| "duplicated_scan seen (r # rs) = (r \<in> set seen) # duplicated_scan (r # seen) rs"

definition duplicated :: "frame \<Rightarrow> bool list" where
  "duplicated df = (if empty df then [] else duplicated_scan [] (map snd (rows df)))"

text \<open>
  \<open>df.drop_duplicates()\<close>: an empty frame is left as it is, any other frame keeps the
  rows that \<open>duplicated\<close> does not flag.
\<close>

definition drop_duplicates :: "frame \<Rightarrow> frame" where
  "drop_duplicates df =
     (if empty df then df else boolean_mask (map Not (duplicated df)) df)"

text \<open>\<open>df.dropna()\<close> (\<open>axis=0\<close>, \<open>how='any'\<close>): keeps the rows all of whose cells are present.\<close>

definition dropna :: "frame \<Rightarrow> frame" where
  "dropna df = boolean_mask (all_axis1 (notna df)) df"

section \<open>Formatting of integers\<close>

text \<open>An f-string renders an integer in decimal, with a minus sign when it is negative.\<close>

function str_nat :: "nat \<Rightarrow> string" where
  "str_nat n =
     (if n < 10 then [''0123456789'' ! n]
      else str_nat (n div 10) @ [''0123456789'' ! (n mod 10)])"
  by pat_completeness auto
termination
  by (relation "measure id") auto

declare str_nat.simps [simp del]

definition str_int :: "int \<Rightarrow> string" where
  "str_int i = (if i < 0 then CHR ''-'' # str_nat (nat (- i)) else str_nat (nat i))"

section \<open>The interpreter state\<close>

text \<open>
  Frames are mutable objects. The state holds the heap of frames (a reference is a
  position in it; a fresh object is appended), the lines printed so far, the text of the
  files on disk, and the paths that the operating system lets the program write (the
  directory exists, the permissions allow it). A reference that the program holds points
  to an object of the heap: the statements below are about references
  \<open>df < length (heap w)\<close>.
\<close>

type_synonym ref = nat

record world =
  heap :: "frame list"
  stdout :: "string list"
  files :: "string \<rightharpoonup> string"
  writable :: "string \<Rightarrow> bool"

datatype error = FileNotFoundError | EmptyDataError | ParserError | OSError

definition print :: "string \<Rightarrow> world \<Rightarrow> world" where
  "print line w = w\<lparr>stdout := stdout w @ [line]\<rparr>"

text \<open>\<open>df.copy()\<close> allocates a new frame with the same columns, labels and cells.\<close>

definition copy :: "ref \<Rightarrow> world \<Rightarrow> ref \<times> world" where
  "copy df w = (length (heap w), w\<lparr>heap := heap w @ [heap w ! df]\<rparr>)"

text \<open>The two filters with \<open>inplace=True\<close> replace the contents of the object itself.\<close>

definition drop_duplicates_inplace :: "ref \<Rightarrow> world \<Rightarrow> world" where
  "drop_duplicates_inplace df w = w\<lparr>heap := (heap w)[df := drop_duplicates (heap w ! df)]\<rparr>"

definition dropna_inplace :: "ref \<Rightarrow> world \<Rightarrow> world" where
  "dropna_inplace df w = w\<lparr>heap := (heap w)[df := dropna (heap w ! df)]\<rparr>"

text \<open>
  The CSV dialect of pandas is not part of the program. It enters as two parameters:
  \<open>parse\<close> reads the text of a file as a frame or raises (no header: \<open>EmptyDataError\<close>,
  malformed lines: \<open>ParserError\<close>), deciding which texts are nulls and which are numbers;
  \<open>render\<close> writes a frame as text (without its index labels, for \<open>index=False\<close>).
  \<open>pd.read_csv\<close> raises \<open>FileNotFoundError\<close> for a missing file and whatever the parser
  raises, and allocates the frame it has read. \<open>df.to_csv\<close> raises \<open>OSError\<close> when the path
  cannot be written, and replaces the text of the file otherwise.
\<close>

definition read_csv :: "(string \<Rightarrow> error + frame) \<Rightarrow> string \<Rightarrow> world \<Rightarrow> error + ref \<times> world" where
  "read_csv parse filepath w =
     (case files w filepath of
        None \<Rightarrow> Inl FileNotFoundError
      | Some text \<Rightarrow>
          (case parse text of
             Inl e \<Rightarrow> Inl e
           | Inr df \<Rightarrow> Inr (length (heap w), w\<lparr>heap := heap w @ [df]\<rparr>)))"

definition to_csv :: "(frame \<Rightarrow> string) \<Rightarrow> ref \<Rightarrow> string \<Rightarrow> world \<Rightarrow> error + world" where
  "to_csv render df path w =
     (if writable w path
      then Inr (w\<lparr>files := (files w)(path \<mapsto> render (heap w ! df))\<rparr>)
      else Inl OSError)"

section \<open>String replacement\<close>

text \<open>
  \<open>s.replace(old, new)\<close> without a count: scanning from the left, every occurrence of
  \<open>old\<close> that does not overlap an earlier one is replaced by \<open>new\<close>. For an empty \<open>old\<close>
  Python puts \<open>new\<close> before every character and at the end.
\<close>

function replace :: "string \<Rightarrow> string \<Rightarrow> string \<Rightarrow> string" where
  "replace old new s =
     (if old = [] then new @ concat (map (\<lambda>c. c # new) s)
      else if s = [] then []
      else if prefix old s then new @ replace old new (drop (length old) s)
      else hd s # replace old new (tl s))"
  by pat_completeness auto
termination
  by (relation "measure (\<lambda>(old, new, s). length s)") (auto simp: neq_Nil_conv)

declare replace.simps [simp del]

section \<open>The cleaner\<close>

text \<open>An \<open>AutoDataClean\<close> object holds the two flags given to its constructor.\<close>

record AutoDataClean =
  remove_duplicates :: bool
  remove_nulls :: bool

text \<open>
  \<open>clean(self, df, inplace)\<close>: unless \<open>inplace\<close> is set, \<open>df\<close> is rebound to a copy. The
  enabled filters then change the object \<open>df\<close> refers to, duplicates first, and each
  prints how many rows it removed, a difference of two lengths (an integer, as in
  Python). The last line is printed in every case and the reference \<open>df\<close> is returned.
\<close>

definition clean :: "AutoDataClean \<Rightarrow> ref \<Rightarrow> bool \<Rightarrow> world \<Rightarrow> ref \<times> world" where
  "clean self df0 inplace w0 =
     (let (df, w1) = (if \<not> inplace then copy df0 w0 else (df0, w0));
          original_rows = len (heap w1 ! df);
          w2 = (if remove_duplicates self then
                  (let w = drop_duplicates_inplace df w1;
                       duplicates_removed = int original_rows - int (len (heap w ! df))
                   in print (''Removed '' @ str_int duplicates_removed @ '' duplicate rows.'') w)
                else w1);
          rows_before_null_removal = len (heap w2 ! df);
          w3 = (if remove_nulls self then
                  (let w = dropna_inplace df w2;
                       nulls_removed = int rows_before_null_removal - int (len (heap w ! df))
                   in print (''Removed '' @ str_int nulls_removed @ '' rows with null values.'') w)
                else w2)
      in (df, print (''Cleaning complete. Original rows: '' @ str_int (int original_rows)
                      @ '', Final rows: '' @ str_int (int (len (heap w3 ! df)))) w3))"

text \<open>
  \<open>get_summary(self, df)\<close> builds a dictionary with four entries from the frame; it calls
  no method that changes the frame, and does not use the flags.
\<close>

record summary =
  total_rows :: nat
  duplicate_rows :: nat
  rows_with_nulls :: nat
  null_counts_per_column :: "string \<rightharpoonup> nat"

definition get_summary :: "frame \<Rightarrow> summary" where
  "get_summary df =
     \<lparr>total_rows = len df,
      duplicate_rows = sum_bools (duplicated df),
      rows_with_nulls = sum_bools (any_axis1 (isnull df)),
      null_counts_per_column = to_dict (columns df) (sum_axis0 (length (columns df)) (isnull df))\<rparr>"

text \<open>
  \<open>clean_data(filepath, output_filepath, remove_duplicates, remove_nulls)\<close>, with the two
  parameters of the CSV dialect in front. An exception of the read or of the write reaches
  the caller: the result is then the error, with the state as it was when the exception
  was raised (the lines of \<open>clean\<close> are printed before the write is attempted, the last
  line only after it). The two flags are called \<open>dups\<close> and \<open>nulls\<close> here, the names of the
  fields being taken.
\<close>

definition clean_data ::
  "(string \<Rightarrow> error + frame) \<Rightarrow> (frame \<Rightarrow> string) \<Rightarrow>
   string \<Rightarrow> string option \<Rightarrow> bool \<Rightarrow> bool \<Rightarrow> world \<Rightarrow> (error + ref) \<times> world" where
  "clean_data parse render filepath output_filepath dups nulls w =
     (case read_csv parse filepath w of
        Inl e \<Rightarrow> (Inl e, w)
      | Inr (df, w1) \<Rightarrow>
          (let cleaner = \<lparr>remove_duplicates = dups, remove_nulls = nulls\<rparr>;
               (df_cleaned, w2) = clean cleaner df False w1;
               path = (case output_filepath of
                         None \<Rightarrow> replace ''.csv'' ''_cleaned.csv'' filepath
                       | Some p \<Rightarrow> p)
           in (case to_csv render df_cleaned path w2 of
                 Inl e \<Rightarrow> (Inl e, w2)
               | Inr w3 \<Rightarrow> (Inr df_cleaned, print (''Cleaned data saved to: '' @ path) w3))))"

section \<open>The data of the example script\<close>

text \<open>
  The frame built by \<open>example.py\<close> (pandas numbers its rows from 0), the text that the
  script saves it as, and the four cleaners the script constructs.
\<close>

definition example_df :: frame where
  "example_df =
     \<lparr>columns = [''ID'', ''Name'', ''Age'', ''Salary''],
      rows = [(0, [Some (Num 1), Some (Str ''Alice''), Some (Num 25), Some (Num 50000)]),
              (1, [Some (Num 2), Some (Str ''Bob''), Some (Num 30), Some (Num 60000)]),
              (2, [Some (Num 2), Some (Str ''Bob''), Some (Num 30), Some (Num 60000)]),
              (3, [Some (Num 3), Some (Str ''Charlie''), None, Some (Num 70000)]),
              (4, [Some (Num 4), None, Some (Num 28), Some (Num 55000)]),
              (5, [Some (Num 5), Some (Str ''Eve''), Some (Num 35), None]),
              (6, [Some (Num 5), Some (Str ''Eve''), Some (Num 35), None])]\<rparr>"

definition sample_text :: string where
  "sample_text = concat (map (\<lambda>l. l @ [CHR 0x0A])
     [''ID,Name,Age,Salary'',
      ''1,Alice,25.0,50000.0'',
      ''2,Bob,30.0,60000.0'',
      ''2,Bob,30.0,60000.0'',
      ''3,Charlie,,70000.0'',
      ''4,,28.0,55000.0'',
      ''5,Eve,35.0,'',
      ''5,Eve,35.0,''])"

definition cleaner1 :: AutoDataClean where
  "cleaner1 = \<lparr>remove_duplicates = True, remove_nulls = True\<rparr>"

definition cleaner2 :: AutoDataClean where
  "cleaner2 = \<lparr>remove_duplicates = True, remove_nulls = False\<rparr>"

definition cleaner3 :: AutoDataClean where
  "cleaner3 = \<lparr>remove_duplicates = False, remove_nulls = True\<rparr>"

definition cleaner4 :: AutoDataClean where
  "cleaner4 = \<lparr>remove_duplicates = False, remove_nulls = False\<rparr>"

text \<open>
  Three degenerate frames: the columns of the example without any row, a frame all of
  whose rows hold a null, and a frame all of whose rows have the same cells.
\<close>

definition empty_df :: frame where
  "empty_df = example_df\<lparr>rows := []\<rparr>"

definition all_null_df :: frame where
  "all_null_df =
     \<lparr>columns = [''Name'', ''Age''],
      rows = [(0, [None, None]), (1, [Some (Str ''Bob''), None])]\<rparr>"

definition all_same_df :: frame where
  "all_same_df =
     \<lparr>columns = [''Name''],
      rows = [(0, [Some (Str ''Bob'')]), (1, [Some (Str ''Bob'')]), (2, [Some (Str ''Bob'')])]\<rparr>"

text \<open>
  A state in which the example frame is the object at reference 0, next to the three
  other frames, and has been saved as \<open>sample_data.csv\<close> in the current directory, the only
  directory there is.
\<close>

definition example_world :: world where
  "example_world =
     \<lparr>heap = [example_df, empty_df, all_null_df, all_same_df], stdout = [],
      files = [''sample_data.csv'' \<mapsto> sample_text],
      writable = (\<lambda>path. CHR ''/'' \<notin> set path)\<rparr>"

section \<open>Notions used in the statements\<close>

text \<open>The frame a call returns: the object its reference points to in the final state.\<close>

definition returned :: "ref \<times> world \<Rightarrow> frame" where
  "returned p = heap (snd p) ! fst p"

text \<open>What the enabled stages of a cleaner leave of a frame, and the lines they print.\<close>

definition cleaned :: "AutoDataClean \<Rightarrow> frame \<Rightarrow> frame" where
  "cleaned self df =
     (let d = (if remove_duplicates self then drop_duplicates df else df)
      in if remove_nulls self then dropna d else d)"

definition progress :: "AutoDataClean \<Rightarrow> frame \<Rightarrow> string list" where
  "progress self df =
     (let d = (if remove_duplicates self then drop_duplicates df else df)
      in (if remove_duplicates self
          then [''Removed '' @ str_int (int (len df) - int (len d)) @ '' duplicate rows.'']
          else [])
       @ (if remove_nulls self
          then [''Removed '' @ str_int (int (len d) - int (len (dropna d)))
                @ '' rows with null values.'']
          else [])
       @ [''Cleaning complete. Original rows: '' @ str_int (int (len df))
          @ '', Final rows: '' @ str_int (int (len (cleaned self df)))])"

text \<open>Keeping the first row of every group of rows with equal cells, given the cells met before.\<close>

fun keep_first :: "cell list set \<Rightarrow> (nat \<times> cell list) list \<Rightarrow> (nat \<times> cell list) list" where
  "keep_first seen [] = []"
| "keep_first seen (r # rs) =
     (if snd r \<in> seen then keep_first seen rs else r # keep_first (insert (snd r) seen) rs)"

text \<open>
  The figures of a summary as the specification words them, as counts of row positions:
  a row is a duplicate when all its column values equal those of a strictly earlier row,
  it has a null when at least one of its column values is absent.
\<close>

definition same_values :: "frame \<Rightarrow> nat \<Rightarrow> nat \<Rightarrow> bool" where
  "same_values T j i =
     (\<forall>c\<in>{0..<length (columns T)}. snd (rows T ! j) ! c = snd (rows T ! i) ! c)"

definition is_duplicate_row :: "frame \<Rightarrow> nat \<Rightarrow> bool" where
  "is_duplicate_row T i = (\<exists>j\<in>{0..<i}. same_values T j i)"

definition has_null :: "frame \<Rightarrow> nat \<Rightarrow> bool" where
  "has_null T i = (\<exists>c\<in>{0..<length (columns T)}. snd (rows T ! i) ! c = None)"

definition null_in_column :: "frame \<Rightarrow> nat \<Rightarrow> nat \<Rightarrow> bool" where
  "null_in_column T c i = (snd (rows T ! i) ! c = None)"

definition count_rows :: "frame \<Rightarrow> (nat \<Rightarrow> bool) \<Rightarrow> nat" where
  "count_rows T P = length (filter P [0..<len T])"

text \<open>
  A frame with two rows and no column, and a frame whose two columns have the same name:
  the first holds two nulls, the second one.
\<close>

definition no_columns :: frame where
  "no_columns = \<lparr>columns = [], rows = [(0, []), (1, [])]\<rparr>"

definition same_names :: frame where
  "same_names =
     \<lparr>columns = [''A'', ''A''], rows = [(0, [None, Some (Num 1)]), (1, [None, None])]\<rparr>"

text \<open>
  A parser for the example: it reads the text of the sample file as the example frame (the
  only text it is asked to read here). Two states without objects: one whose only file has
  \<open>.csv\<close> twice in its name, in the current directory; one whose only file lies in a
  directory with \<open>.csv\<close> in its name, the current directory and that one being the only
  directories.
\<close>

definition example_parse :: "string \<Rightarrow> error + frame" where
  "example_parse text = (if text = sample_text then Inr example_df else Inl ParserError)"

definition twice_csv_world :: world where
  "twice_csv_world =
     \<lparr>heap = [], stdout = [],
      files = [''sample_data.csv.csv'' \<mapsto> sample_text],
      writable = (\<lambda>path. CHR ''/'' \<notin> set path)\<rparr>"

definition dir_csv_world :: world where
  "dir_csv_world =
     \<lparr>heap = [], stdout = [],
      files = [''dir.csv/f.csv'' \<mapsto> sample_text],
      writable = (\<lambda>path. CHR ''/'' \<notin> set (if prefix ''dir.csv/'' path then drop 8 path
                                               else path))\<rparr>"

section \<open>Lemmas on the frame operations and on the cleaner\<close>

lemma mask_filter: "map fst (filter snd (zip xs (map f xs))) = filter f xs"
  by (induction xs) auto

lemma columns_boolean_mask: "columns (boolean_mask bs df) = columns df"
  by (simp add: boolean_mask_def)

lemma rows_dropna: "rows (dropna df) = filter (\<lambda>r. None \<notin> set (snd r)) (rows df)"
proof -
  have "all_axis1 (notna df) = map (\<lambda>r. None \<notin> set (snd r)) (rows df)"
    by (auto simp: all_axis1_def notna_def list_all_iff) (metis option.exhaust)
  then show ?thesis
    by (simp add: dropna_def boolean_mask_def mask_filter)
qed

lemma columns_dropna: "columns (dropna df) = columns df"
  by (simp add: dropna_def columns_boolean_mask)

lemma mask_keep_first:
  "map fst (filter snd (zip xs (map Not (duplicated_scan seen (map snd xs)))))
     = keep_first (set seen) xs"
proof (induction xs arbitrary: seen)
  case Nil
  then show ?case by simp
next
  case (Cons x xs)
  show ?case
  proof (cases "snd x \<in> set seen")
    case True
    then have "insert (snd x) (set seen) = set seen" by auto
    with True Cons [of "snd x # seen"] show ?thesis by simp
  next
    case False
    with Cons [of "snd x # seen"] show ?thesis by simp
  qed
qed

lemma rows_drop_duplicates:
  "rows (drop_duplicates df) = (if empty df then rows df else keep_first {} (rows df))"
  using mask_keep_first [of "rows df" "[]"]
  by (simp add: drop_duplicates_def duplicated_def boolean_mask_def)

lemma columns_drop_duplicates: "columns (drop_duplicates df) = columns df"
  by (simp add: drop_duplicates_def columns_boolean_mask)

lemma keep_first_subseq: "subseq (keep_first seen xs) xs"
  by (induction xs arbitrary: seen) auto

lemma keep_first_distinct:
  "distinct (map snd (keep_first seen xs)) \<and> snd ` set (keep_first seen xs) \<inter> seen = {}"
proof (induction xs arbitrary: seen)
  case Nil
  then show ?case by simp
next
  case (Cons x xs)
  from Cons [of seen] Cons [of "insert (snd x) seen"] show ?case by auto
qed

lemma keep_first_id:
  "distinct (map snd xs) \<Longrightarrow> snd ` set xs \<inter> seen = {} \<Longrightarrow> keep_first seen xs = xs"
  by (induction xs arbitrary: seen) auto

lemma drop_duplicates_id:
  "empty df \<or> distinct (map snd (rows df)) \<Longrightarrow> drop_duplicates df = df"
proof (cases "empty df")
  case True
  then show ?thesis by (simp add: drop_duplicates_def)
next
  case False
  assume "empty df \<or> distinct (map snd (rows df))"
  with False have "distinct (map snd (rows df))" by simp
  then have "keep_first {} (rows df) = rows df" by (simp add: keep_first_id)
  with False have "rows (drop_duplicates df) = rows df" by (simp add: rows_drop_duplicates)
  then show ?thesis using columns_drop_duplicates [of df]
    by (simp add: drop_duplicates_def boolean_mask_def False)
qed

lemma drop_duplicates_result:
  "empty (drop_duplicates df) \<or> distinct (map snd (rows (drop_duplicates df)))"
  using keep_first_distinct [of "{}" "rows df"]
  by (cases "empty df") (simp_all add: drop_duplicates_def rows_drop_duplicates[simplified drop_duplicates_def] boolean_mask_def empty_def duplicated_def mask_keep_first[of _ "[]", simplified])

lemma clean_inplace:
  assumes "df < length (heap w)"
  shows "clean self df True w =
     (df, w\<lparr>heap := (heap w)[df := cleaned self (heap w ! df)],
            stdout := stdout w @ progress self (heap w ! df)\<rparr>)"
  using assms
  by (simp add: clean_def Let_def drop_duplicates_inplace_def dropna_inplace_def print_def
      cleaned_def progress_def)

lemma clean_copy:
  "clean self df False w =
     (length (heap w), w\<lparr>heap := heap w @ [cleaned self (heap w ! df)],
            stdout := stdout w @ progress self (heap w ! df)\<rparr>)"
  by (simp add: clean_def Let_def copy_def drop_duplicates_inplace_def dropna_inplace_def print_def
      cleaned_def progress_def)

lemma returned_clean:
  "df < length (heap w) \<Longrightarrow> returned (clean self df inplace w) = cleaned self (heap w ! df)"
  by (cases inplace) (simp_all add: returned_def clean_inplace clean_copy)

lemma stdout_clean:
  "df < length (heap w) \<Longrightarrow>
   stdout (snd (clean self df inplace w)) = stdout w @ progress self (heap w ! df)"
  by (cases inplace) (simp_all add: clean_inplace clean_copy)

lemma fst_clean:
  "df < length (heap w) \<Longrightarrow> fst (clean self df inplace w) = (if inplace then df else length (heap w))"
  by (cases inplace) (simp_all add: clean_inplace clean_copy)

lemma length_heap_clean:
  "df < length (heap w) \<Longrightarrow>
   length (heap (snd (clean self df inplace w))) = (if inplace then length (heap w) else Suc (length (heap w)))"
  by (cases inplace) (simp_all add: clean_inplace clean_copy)

lemma len_dropna: "len (dropna df) \<le> len df"
  by (simp add: len_def rows_dropna)

lemma len_keep_first: "length (keep_first seen xs) \<le> length xs"
  by (induction xs arbitrary: seen) (auto simp: le_SucI)

lemma len_drop_duplicates: "len (drop_duplicates df) \<le> len df"
  by (simp add: len_def rows_drop_duplicates len_keep_first)

lemma dropna_eq: "dropna df = df\<lparr>rows := filter (\<lambda>r. None \<notin> set (snd r)) (rows df)\<rparr>"
  using rows_dropna [of df] by (simp add: dropna_def boolean_mask_def)

lemma dropna_idem: "dropna (dropna df) = dropna df"
  by (simp add: dropna_eq)

lemma dropna_keeps_distinct:
  assumes "empty df \<or> distinct (map snd (rows df))"
  shows "empty (dropna df) \<or> distinct (map snd (rows (dropna df)))"
proof (cases "columns df = []")
  case True
  then show ?thesis by (simp add: empty_def columns_dropna)
next
  case False
  show ?thesis
  proof (cases "rows df = []")
    case True
    then show ?thesis by (simp add: empty_def rows_dropna)
  next
    case nonempty: False
    with False assms have "distinct (map snd (rows df))" by (simp add: empty_def)
    then show ?thesis by (simp add: rows_dropna distinct_map_filter)
  qed
qed

lemma cleaned_idem: "cleaned self (cleaned self df) = cleaned self df"
proof (cases "remove_duplicates self")
  case True
  note dup = this
  show ?thesis
  proof (cases "remove_nulls self")
    case True
    have "drop_duplicates (dropna (drop_duplicates df)) = dropna (drop_duplicates df)"
      by (rule drop_duplicates_id) (rule dropna_keeps_distinct, rule drop_duplicates_result)
    with dup True show ?thesis by (simp add: cleaned_def dropna_idem)
  next
    case False
    have "drop_duplicates (drop_duplicates df) = drop_duplicates df"
      by (rule drop_duplicates_id) (rule drop_duplicates_result)
    with dup False show ?thesis by (simp add: cleaned_def)
  qed
next
  case False
  then show ?thesis by (cases "remove_nulls self") (simp_all add: cleaned_def dropna_idem)
qed

lemma subseq_subset: "subseq xs ys \<Longrightarrow> set xs \<subseteq> set ys"
  by (auto elim: list_emb_set)

lemma str_int_0: "str_int 0 = ''0''"
  by (simp add: str_int_def str_nat.simps)

lemma heap_clean_copy:
  "q < length (heap w) \<Longrightarrow> heap (snd (clean self df False w)) ! q = heap w ! q"
  by (simp add: clean_copy nth_append)

lemma heap_clean_inplace:
  "df < length (heap w) \<Longrightarrow> q \<noteq> df \<Longrightarrow> heap (snd (clean self df True w)) ! q = heap w ! q"
  by (simp add: clean_inplace)

lemma cleaned_passthrough:
  "\<not> remove_duplicates self \<Longrightarrow> \<not> remove_nulls self \<Longrightarrow> cleaned self df = df"
  by (simp add: cleaned_def)

lemma keep_first_all_seen: "\<forall>x\<in>set xs. snd x \<in> seen \<Longrightarrow> keep_first seen xs = []"
  by (induction xs) auto

lemma rows_drop_duplicates_all_same:
  assumes "columns df \<noteq> []" and "rows df \<noteq> []"
    and "\<forall>r\<in>set (rows df). snd r = snd (hd (rows df))"
  shows "rows (drop_duplicates df) = [hd (rows df)]"
proof -
  from assms(2) obtain r rs where rows: "rows df = r # rs" by (cases "rows df") auto
  with assms(3) have "\<forall>x\<in>set rs. snd x \<in> {snd r}" by simp
  then have "keep_first {snd r} rs = []" by (rule keep_first_all_seen)
  with rows assms(1) show ?thesis by (simp add: rows_drop_duplicates empty_def)
qed

lemma cleaned_no_rows: "rows df = [] \<Longrightarrow> cleaned self df = df"
  by (simp add: cleaned_def Let_def drop_duplicates_def empty_def dropna_eq)

lemma progress_no_rows:
  assumes "rows df = []"
  shows "progress self df =
           (if remove_duplicates self then [''Removed 0 duplicate rows.''] else [])
         @ (if remove_nulls self then [''Removed 0 rows with null values.''] else [])
         @ [''Cleaning complete. Original rows: 0, Final rows: 0'']"
proof -
  have d: "drop_duplicates df = df" using assms by (simp add: drop_duplicates_def empty_def)
  have n: "len (dropna df) = 0" using assms by (simp add: len_def rows_dropna)
  have l: "len df = 0" using assms by (simp add: len_def)
  have c: "len (cleaned self df) = 0" using assms l by (simp add: cleaned_no_rows)
  show ?thesis
    by (simp add: progress_def Let_def d n l c str_int_0)
qed

lemma rows_cleaned_all_null:
  assumes "remove_nulls self" and "\<forall>r\<in>set (rows df). None \<in> set (snd r)"
  shows "rows (cleaned self df) = []"
proof -
  have "\<forall>r\<in>set (rows (drop_duplicates df)). None \<in> set (snd r)"
    using assms(2) keep_first_subseq [of "{}" "rows df"]
    by (auto simp: rows_drop_duplicates dest: subseq_subset split: if_splits)
  with assms show ?thesis
    by (cases "remove_duplicates self") (auto simp: cleaned_def rows_dropna filter_empty_conv)
qed

lemma columns_cleaned: "columns (cleaned self df) = columns df"
  by (simp add: cleaned_def Let_def columns_dropna columns_drop_duplicates)

lemma subseq_rows_dropna: "subseq (rows (dropna df)) (rows df)"
  by (simp add: rows_dropna)

lemma subseq_rows_drop_duplicates: "subseq (rows (drop_duplicates df)) (rows df)"
  by (simp add: rows_drop_duplicates keep_first_subseq)

lemma subseq_rows_cleaned: "subseq (rows (cleaned self df)) (rows df)"
  using subseq_rows_dropna [of df] subseq_rows_drop_duplicates [of df]
    subseq_order.order_trans [OF subseq_rows_dropna [of "drop_duplicates df"] subseq_rows_drop_duplicates [of df]]
  by (simp add: cleaned_def Let_def)

lemma drop_duplicates_cleaned:
  "remove_duplicates self \<Longrightarrow> drop_duplicates (cleaned self df) = cleaned self df"
proof -
  assume dup: "remove_duplicates self"
  show ?thesis
  proof (cases "remove_nulls self")
    case True
    have "drop_duplicates (dropna (drop_duplicates df)) = dropna (drop_duplicates df)"
      by (rule drop_duplicates_id) (rule dropna_keeps_distinct, rule drop_duplicates_result)
    with dup True show ?thesis by (simp add: cleaned_def)
  next
    case False
    have "drop_duplicates (drop_duplicates df) = drop_duplicates df"
      by (rule drop_duplicates_id) (rule drop_duplicates_result)
    with dup False show ?thesis by (simp add: cleaned_def)
  qed
qed

lemma dropna_cleaned:
  "remove_nulls self \<Longrightarrow> dropna (cleaned self df) = cleaned self df"
  by (simp add: cleaned_def Let_def dropna_idem)

lemma progress_cleaned:
  "progress self (cleaned self df) =
     (if remove_duplicates self then [''Removed 0 duplicate rows.''] else [])
   @ (if remove_nulls self then [''Removed 0 rows with null values.''] else [])
   @ [''Cleaning complete. Original rows: '' @ str_int (int (len (cleaned self df)))
      @ '', Final rows: '' @ str_int (int (len (cleaned self df)))]"
  by (simp add: progress_def Let_def drop_duplicates_cleaned dropna_cleaned cleaned_idem str_int_0)

lemma length_duplicated_scan: "length (duplicated_scan seen rs) = length rs"
  by (induction rs arbitrary: seen) auto

lemma duplicated_scan_nth:
  "i < length rs \<Longrightarrow> duplicated_scan seen rs ! i = (rs ! i \<in> set seen \<union> set (take i rs))"
proof (induction rs arbitrary: seen i)
  case Nil
  then show ?case by simp
next
  case (Cons r rs)
  show ?case
  proof (cases i)
    case 0
    then show ?thesis by simp
  next
    case (Suc k)
    with Cons.prems have "k < length rs" by simp
    from Cons.IH [OF this, of "r # seen"] Suc show ?thesis by simp
  qed
qed

lemma mask_complement_count:
  "length bs = length xs \<Longrightarrow>
   length (map fst (filter snd (zip xs (map Not bs)))) + length (filter id bs) = length xs"
proof (induction bs arbitrary: xs)
  case Nil
  then show ?case by simp
next
  case (Cons b bs)
  then obtain y ys where xs: "xs = y # ys" by (cases xs) auto
  with Cons.prems have "length bs = length ys" by simp
  from Cons.IH [OF this] xs show ?case by (cases b) simp_all
qed

lemma sum_bools_map: "sum_bools (map f xs) = length (filter f xs)"
  by (induction xs) (simp_all add: sum_bools_def)

lemma count_index: "length (filter P xs) = length (filter (\<lambda>i. P (xs ! i)) [0..<length xs])"
proof -
  have "filter P (map ((!) xs) [0..<length xs])
          = map ((!) xs) (filter (P \<circ> (!) xs) [0..<length xs])"
    by (rule filter_map)
  then have "length (filter P (map ((!) xs) [0..<length xs]))
          = length (filter (P \<circ> (!) xs) [0..<length xs])"
    by simp
  then show ?thesis by (simp add: map_nth comp_def)
qed

lemma duplicates_removed_count:
  "int (len df) - int (len (drop_duplicates df)) = int (sum_bools (duplicated df))"
proof (cases "empty df")
  case True
  then show ?thesis by (simp add: drop_duplicates_def duplicated_def sum_bools_def)
next
  case False
  have "length (map fst (filter snd (zip (rows df) (map Not (duplicated_scan [] (map snd (rows df)))))))
          + length (filter id (duplicated_scan [] (map snd (rows df)))) = length (rows df)"
    by (rule mask_complement_count) (simp add: length_duplicated_scan)
  with False show ?thesis
    by (simp add: drop_duplicates_def duplicated_def sum_bools_def len_def boolean_mask_def)
qed

lemma any_isnull: "any_axis1 (isnull df) = map (\<lambda>r. None \<in> set (snd r)) (rows df)"
  by (auto simp: any_axis1_def isnull_def list_ex_iff)

lemma nulls_removed_count:
  "int (len df) - int (len (dropna df)) = int (sum_bools (any_axis1 (isnull df)))"
proof -
  have "length (filter (\<lambda>r. None \<notin> set (snd r)) (rows df))
          + length (filter (\<lambda>r. \<not> None \<notin> set (snd r)) (rows df)) = length (rows df)"
    by (rule sum_length_filter_compl)
  then show ?thesis
    by (simp add: len_def rows_dropna any_isnull sum_bools_map)
qed

lemma keep_first_append:
  "keep_first seen (xs @ ys) = keep_first seen xs @ keep_first (seen \<union> snd ` set xs) ys"
proof (induction xs arbitrary: seen)
  case Nil
  then show ?case by simp
next
  case (Cons x xs)
  have "insert (snd x) seen \<union> snd ` set xs = seen \<union> snd ` set (x # xs)" by auto
  moreover have "snd x \<in> seen \<Longrightarrow> seen \<union> snd ` set xs = seen \<union> snd ` set (x # xs)" by auto
  ultimately show ?case using Cons [of seen] Cons [of "insert (snd x) seen"] by simp
qed

lemma later_duplicate_dropped:
  assumes "i < length xs" and "j < i" and "snd (xs ! j) = snd (xs ! i)" and "distinct (map fst xs)"
  shows "xs ! i \<notin> set (keep_first {} xs)"
proof -
  let ?pre = "take i xs" and ?post = "drop (Suc i) xs"
  have split: "xs = ?pre @ xs ! i # ?post" using assms(1) by (rule id_take_nth_drop)
  have "xs ! j \<in> set ?pre" using assms(1,2) by (auto simp: in_set_conv_nth)
  then have seen: "snd (xs ! i) \<in> {} \<union> snd ` set ?pre" using assms(3) by (metis Un_iff image_eqI)
  have "keep_first {} xs = keep_first {} (?pre @ xs ! i # ?post)" using split by simp
  also have "\<dots> = keep_first {} ?pre @ keep_first ({} \<union> snd ` set ?pre) (xs ! i # ?post)"
    by (rule keep_first_append)
  also have "\<dots> = keep_first {} ?pre @ keep_first ({} \<union> snd ` set ?pre) ?post"
    using seen by simp
  finally have "set (keep_first {} xs) \<subseteq> set ?pre \<union> set ?post"
    using subseq_subset [OF keep_first_subseq [of "{}" ?pre]]
      subseq_subset [OF keep_first_subseq [of "{} \<union> snd ` set ?pre" ?post]]
    by auto
  moreover have "distinct xs" using assms(4) by (simp add: distinct_map)
  then have "distinct (?pre @ xs ! i # ?post)" using split by simp
  then have "xs ! i \<notin> set ?pre \<union> set ?post" by auto
  ultimately show ?thesis by auto
qed

lemma progress_both:
  assumes "remove_duplicates self" and "remove_nulls self"
  shows "progress self df =
     [''Removed '' @ str_int (int (sum_bools (duplicated df))) @ '' duplicate rows.'',
      ''Removed '' @ str_int (int (sum_bools (any_axis1 (isnull (drop_duplicates df)))))
        @ '' rows with null values.'',
      ''Cleaning complete. Original rows: '' @ str_int (int (len df))
        @ '', Final rows: '' @ str_int (int (len (dropna (drop_duplicates df))))]"
  using assms
  by (simp add: progress_def Let_def cleaned_def duplicates_removed_count nulls_removed_count)

lemma rectangular_nth:
  "rectangular T \<Longrightarrow> i < length (rows T) \<Longrightarrow> length (snd (rows T ! i)) = length (columns T)"
  by (simp add: rectangular_def list_all_iff)

lemma same_values_eq:
  assumes "rectangular T" and "i < length (rows T)" and "j < length (rows T)"
  shows "same_values T j i = (snd (rows T ! j) = snd (rows T ! i))"
proof
  assume "same_values T j i"
  then have "\<forall>c<length (columns T). snd (rows T ! j) ! c = snd (rows T ! i) ! c"
    by (simp add: same_values_def)
  with rectangular_nth [OF assms(1,2)] rectangular_nth [OF assms(1,3)]
  show "snd (rows T ! j) = snd (rows T ! i)"
    by (intro nth_equalityI) simp_all
next
  assume "snd (rows T ! j) = snd (rows T ! i)"
  then show "same_values T j i" by (simp add: same_values_def)
qed

lemma is_duplicate_row_eq:
  assumes "rectangular T" and "i < length (rows T)"
  shows "is_duplicate_row T i = (map snd (rows T) ! i \<in> set (take i (map snd (rows T))))"
proof -
  have "is_duplicate_row T i = (\<exists>j<i. snd (rows T ! j) = snd (rows T ! i))"
    using assms by (auto simp: is_duplicate_row_def same_values_eq)
  also have "\<dots> = (map snd (rows T) ! i \<in> set (take i (map snd (rows T))))"
    using assms(2) by (auto simp: in_set_conv_nth) 
  finally show ?thesis .
qed

lemma has_null_eq:
  assumes "rectangular T" and "i < length (rows T)"
  shows "has_null T i = (None \<in> set (snd (rows T ! i)))"
  using rectangular_nth [OF assms]
  by (auto simp: has_null_def in_set_conv_nth)

lemma duplicate_rows_count:
  assumes "rectangular T" and "columns T \<noteq> []"
  shows "sum_bools (duplicated T) = count_rows T (is_duplicate_row T)"
proof (cases "rows T = []")
  case True
  then show ?thesis by (simp add: duplicated_def empty_def sum_bools_def count_rows_def len_def)
next
  case False
  let ?rs = "map snd (rows T)"
  let ?flags = "duplicated_scan [] ?rs"
  have "sum_bools ?flags = length (filter (\<lambda>i. ?flags ! i) [0..<length ?flags])"
    using count_index [of id ?flags] by (simp add: sum_bools_def)
  also have "\<dots> = length (filter (\<lambda>i. ?flags ! i) [0..<length (rows T)])"
    by (simp add: length_duplicated_scan)
  also have "filter (\<lambda>i. ?flags ! i) [0..<length (rows T)]
               = filter (is_duplicate_row T) [0..<length (rows T)]"
    using assms(1) by (intro filter_cong refl) (simp add: duplicated_scan_nth is_duplicate_row_eq)
  finally show ?thesis
    using False assms(2) by (simp add: duplicated_def empty_def count_rows_def len_def)
qed

lemma rows_with_nulls_count:
  assumes "rectangular T"
  shows "sum_bools (any_axis1 (isnull T)) = count_rows T (has_null T)"
proof -
  have "sum_bools (any_axis1 (isnull T)) = length (filter (\<lambda>r. None \<in> set (snd r)) (rows T))"
    by (simp add: any_isnull sum_bools_map)
  also have "\<dots> = length (filter (\<lambda>i. None \<in> set (snd (rows T ! i))) [0..<length (rows T)])"
    by (rule count_index)
  also have "filter (\<lambda>i. None \<in> set (snd (rows T ! i))) [0..<length (rows T)]
               = filter (has_null T) [0..<length (rows T)]"
    using assms by (intro filter_cong refl) (simp add: has_null_eq)
  finally show ?thesis by (simp add: count_rows_def len_def)
qed

lemma column_nulls_count:
  assumes "rectangular T" and "c < length (columns T)"
  shows "sum_axis0 (length (columns T)) (isnull T) ! c = count_rows T (null_in_column T c)"
proof -
  have "sum_axis0 (length (columns T)) (isnull T) ! c
          = sum_bools (map (\<lambda>r. map (\<lambda>c. c = None) (snd r) ! c) (rows T))"
    using assms(2) by (simp add: sum_axis0_def isnull_def comp_def)
  also have "\<dots> = length (filter (\<lambda>r. map (\<lambda>c. c = None) (snd r) ! c) (rows T))"
    by (rule sum_bools_map)
  also have "\<dots> = length (filter (\<lambda>i. map (\<lambda>c. c = None) (snd (rows T ! i)) ! c)
                                 [0..<length (rows T)])"
    by (rule count_index)
  also have "filter (\<lambda>i. map (\<lambda>c. c = None) (snd (rows T ! i)) ! c) [0..<length (rows T)]
               = filter (null_in_column T c) [0..<length (rows T)]"
    using assms by (intro filter_cong refl) (simp add: null_in_column_def rectangular_nth)
  finally show ?thesis by (simp add: count_rows_def len_def)
qed

lemma fold_update: "fold (\<lambda>kv m. m(fst kv \<mapsto> snd kv)) kvs m = m ++ map_of (rev kvs)"
proof (induction kvs arbitrary: m)
  case Nil
  then show ?case by simp
next
  case (Cons kv kvs)
  have "m(fst kv \<mapsto> snd kv) ++ map_of (rev kvs) = (m ++ map_of [kv]) ++ map_of (rev kvs)"
    by (simp del: fun_upd_apply)
  also have "\<dots> = m ++ map_of (rev (kv # kvs))"
    by (simp del: fun_upd_apply map_add_upd)
  finally show ?case using Cons [of "m(fst kv \<mapsto> snd kv)"] by (simp del: fun_upd_apply)
qed

lemma map_of_rev_last:
  assumes "k \<notin> fst ` set post"
  shows "map_of (rev (pre @ (k, v) # post)) k = Some v"
proof -
  have "map_of (rev post) k = None" using assms by (simp add: map_of_eq_None_iff)
  then show ?thesis by (simp add: map_add_def)
qed

lemma to_dict_last:
  assumes "length vs = length ks" and "c < length ks" and "ks ! c \<notin> set (drop (Suc c) ks)"
  shows "to_dict ks vs (ks ! c) = Some (vs ! c)"
proof -
  have ks: "ks = take c ks @ ks ! c # drop (Suc c) ks"
    using assms(2) by (rule id_take_nth_drop)
  have vs: "vs = take c vs @ vs ! c # drop (Suc c) vs"
    using assms(1,2) by (intro id_take_nth_drop) simp
  have "zip ks vs = zip (take c ks @ ks ! c # drop (Suc c) ks) (take c vs @ vs ! c # drop (Suc c) vs)"
    using ks vs by simp
  also have "\<dots> = zip (take c ks) (take c vs) @ (ks ! c, vs ! c) # zip (drop (Suc c) ks) (drop (Suc c) vs)"
    using assms(1) by (simp add: zip_append)
  finally have z: "zip ks vs
      = zip (take c ks) (take c vs) @ (ks ! c, vs ! c) # zip (drop (Suc c) ks) (drop (Suc c) vs)" .
  have "fst ` set (zip (drop (Suc c) ks) (drop (Suc c) vs)) \<subseteq> set (drop (Suc c) ks)"
    by (auto dest: set_zip_leftD)
  with assms(3) have "ks ! c \<notin> fst ` set (zip (drop (Suc c) ks) (drop (Suc c) vs))" by blast
  then have "map_of (rev (zip (take c ks) (take c vs) @ (ks ! c, vs ! c)
                            # zip (drop (Suc c) ks) (drop (Suc c) vs))) (ks ! c) = Some (vs ! c)"
    by (rule map_of_rev_last)
  then have "map_of (rev (zip ks vs)) (ks ! c) = Some (vs ! c)" by (simp only: z [symmetric])
  then show ?thesis by (simp add: to_dict_def fold_update)
qed

lemma dom_to_dict:
  assumes "length vs = length ks"
  shows "dom (to_dict ks vs) = set ks"
proof -
  have "dom (to_dict ks vs) = fst ` set (zip ks vs)"
    by (simp add: to_dict_def fold_update dom_map_of_conv_image_fst)
  also have "\<dots> = set (map fst (zip ks vs))" by simp
  also have "\<dots> = set ks" using assms by simp
  finally show ?thesis .
qed

lemma replace_Nil: "old \<noteq> [] \<Longrightarrow> replace old new [] = []"
  by (simp add: replace.simps)

lemma replace_prefix: "old \<noteq> [] \<Longrightarrow> replace old new (old @ s) = new @ replace old new s"
  by (subst replace.simps) simp

lemma replace_Cons:
  "old \<noteq> [] \<Longrightarrow> \<not> prefix old (c # s) \<Longrightarrow> replace old new (c # s) = c # replace old new s"
  by (subst replace.simps) simp

lemma replace_absent: "old \<noteq> [] \<Longrightarrow> \<not> sublist old s \<Longrightarrow> replace old new s = s"
  by (induction s) (simp_all add: replace_Nil replace_Cons sublist_Cons_right)

lemma csv_border_free:
  "prefix ''.csv'' (p @ ''.csv'' @ s) \<Longrightarrow> p \<noteq> [] \<Longrightarrow> prefix ''.csv'' p"
proof -
  assume a: "prefix ''.csv'' (p @ ''.csv'' @ s)" and "p \<noteq> []"
  then obtain c1 p1 where p: "p = c1 # p1" by (cases p) auto
  show ?thesis
  proof (cases p1)
    case Nil with a p show ?thesis by simp
  next
    case (Cons c2 p2)
    note p1 = this
    show ?thesis
    proof (cases p2)
      case Nil with a p p1 show ?thesis by simp
    next
      case (Cons c3 p3)
      note p2 = this
      show ?thesis
      proof (cases p3)
        case Nil with a p p1 p2 show ?thesis by simp
      next
        case (Cons c4 p4)
        with a p p1 p2 show ?thesis by simp
      qed
    qed
  qed
qed

lemma replace_first_csv:
  "\<not> sublist ''.csv'' p \<Longrightarrow>
   replace ''.csv'' ''_cleaned.csv'' (p @ ''.csv'' @ s)
     = p @ ''_cleaned.csv'' @ replace ''.csv'' ''_cleaned.csv'' s"
proof (induction p)
  case Nil
  show ?case using replace_prefix [of "''.csv''" "''_cleaned.csv''" s] by simp
next
  case (Cons c p)
  from Cons.prems have np: "\<not> prefix ''.csv'' (c # p)" and ns: "\<not> sublist ''.csv'' p"
    by (simp_all add: sublist_Cons_right)
  from np csv_border_free [of "c # p" s]
  have "\<not> prefix ''.csv'' (c # (p @ ''.csv'' @ s))" by auto
  then have "replace ''.csv'' ''_cleaned.csv'' (c # (p @ ''.csv'' @ s))
               = c # replace ''.csv'' ''_cleaned.csv'' (p @ ''.csv'' @ s)"
    by (simp add: replace_Cons)
  with Cons.IH [OF ns] show ?case by simp
qed

lemma clean_data_default_run:
  assumes "files w filepath = Some content" and "parse content = Inr df"
    and "writable w (replace ''.csv'' ''_cleaned.csv'' filepath)"
  shows "clean_data parse render filepath None dups nulls w =
     (Inr (Suc (length (heap w))),
      w\<lparr>heap := heap w @ [df, cleaned \<lparr>remove_duplicates = dups, remove_nulls = nulls\<rparr> df],
        stdout := stdout w @ progress \<lparr>remove_duplicates = dups, remove_nulls = nulls\<rparr> df
                  @ [''Cleaned data saved to: '' @ replace ''.csv'' ''_cleaned.csv'' filepath],
        files := (files w)(replace ''.csv'' ''_cleaned.csv'' filepath \<mapsto>
                   render (cleaned \<lparr>remove_duplicates = dups, remove_nulls = nulls\<rparr> df))\<rparr>)"
  using assms
  by (simp add: clean_data_def read_csv_def Let_def clean_copy to_csv_def print_def nth_append)

lemma clean_data_write_fails:
  assumes "files w filepath = Some content" and "parse content = Inr df"
    and "\<not> writable w (replace ''.csv'' ''_cleaned.csv'' filepath)"
  shows "fst (clean_data parse render filepath None dups nulls w) = Inl OSError"
  using assms
  by (simp add: clean_data_def read_csv_def Let_def clean_copy to_csv_def)

section \<open>The claims of the specification\<close>

text \<open>
  Claim C1, as the code has it. On the frame of the example script the summary reports 7
  rows, 2 duplicate rows and 4 rows with a null (Charlie, the row without a name, and both
  Eve rows). Cleaning with both flags removes the 2 duplicate rows, then 3 of the remaining
  5 rows for their nulls, and returns the 2 rows of Alice and Bob; it prints 2, 3, 7 and 2.
\<close>

theorem example_counts:
  "total_rows (get_summary example_df) = 7
   \<and> duplicate_rows (get_summary example_df) = 2
   \<and> rows_with_nulls (get_summary example_df) = 4
   \<and> len (drop_duplicates example_df) = 5
   \<and> returned (clean cleaner1 0 False example_world)
       = \<lparr>columns = [''ID'', ''Name'', ''Age'', ''Salary''],
          rows = [(0, [Some (Num 1), Some (Str ''Alice''), Some (Num 25), Some (Num 50000)]),
                  (1, [Some (Num 2), Some (Str ''Bob''), Some (Num 30), Some (Num 60000)])]\<rparr>
   \<and> stdout (snd (clean cleaner1 0 False example_world))
       = [''Removed 2 duplicate rows.'', ''Removed 3 rows with null values.'',
          ''Cleaning complete. Original rows: 7, Final rows: 2'']"
  by code_simp

text \<open>The figures of 2 rows with nulls, 2 rows removed for nulls and 3 final rows do not hold.\<close>

theorem example_counts_counterexample:
  "\<not> (total_rows (get_summary example_df) = 7
      \<and> duplicate_rows (get_summary example_df) = 2
      \<and> rows_with_nulls (get_summary example_df) = 2
      \<and> len (returned (clean cleaner1 0 False example_world)) = 3
      \<and> stdout (snd (clean cleaner1 0 False example_world))
          = [''Removed 2 duplicate rows.'', ''Removed 2 rows with null values.'',
             ''Cleaning complete. Original rows: 7, Final rows: 3''])"
  by code_simp

text \<open>
  Claim C2. For every frame and every cleaner, \<open>clean\<close> returns what the enabled stages
  leave of the frame, and the row counts only go down: the final count is at most the
  count before null removal (which is the count after duplicate removal), which is at
  most the original count; so the result never has more rows than the input.
\<close>

theorem clean_row_counts_monotone:
  assumes "df < length (heap w)"
  shows "returned (clean self df inplace w) =
           (if remove_nulls self
            then dropna (if remove_duplicates self then drop_duplicates (heap w ! df) else heap w ! df)
            else (if remove_duplicates self then drop_duplicates (heap w ! df) else heap w ! df))
       \<and> len (returned (clean self df inplace w))
           \<le> len (if remove_duplicates self then drop_duplicates (heap w ! df) else heap w ! df)
       \<and> len (if remove_duplicates self then drop_duplicates (heap w ! df) else heap w ! df)
           \<le> len (heap w ! df)
       \<and> len (returned (clean self df inplace w)) \<le> len (heap w ! df)"
proof -
  let ?T = "heap w ! df"
  let ?D = "if remove_duplicates self then drop_duplicates ?T else ?T"
  have r: "returned (clean self df inplace w) = (if remove_nulls self then dropna ?D else ?D)"
    using assms by (simp add: returned_clean cleaned_def Let_def)
  have a: "len (if remove_nulls self then dropna ?D else ?D) \<le> len ?D"
    using len_dropna [of ?D] by (cases "remove_nulls self") simp_all
  have b: "len ?D \<le> len ?T"
    using len_drop_duplicates [of ?T] by (cases "remove_duplicates self") simp_all
  from r a have c: "len (returned (clean self df inplace w)) \<le> len ?D" by (simp only:)
  from c b have d: "len (returned (clean self df inplace w)) \<le> len ?T" by (rule le_trans)
  show ?thesis
    apply (intro conjI)
       apply (rule r)
      apply (rule c)
     apply (rule b)
    apply (rule d)
    done
qed

theorem clean_row_counts_monotone_witness:
  "0 < length (heap example_world)
   \<and> returned (clean cleaner1 0 False example_world) = dropna (drop_duplicates example_df)
   \<and> len (returned (clean cleaner1 0 False example_world)) \<le> len (drop_duplicates example_df)
   \<and> len (drop_duplicates example_df) \<le> len example_df
   \<and> len (returned (clean cleaner1 0 False example_world)) \<le> len example_df"
proof -
  have h: "0 < length (heap example_world)" by (simp add: example_world_def)
  have e: "heap example_world ! 0 = example_df" by (simp add: example_world_def)
  have d: "remove_duplicates cleaner1" and n: "remove_nulls cleaner1"
    by (simp_all add: cleaner1_def)
  note clean_row_counts_monotone [OF h, of cleaner1 False, unfolded e if_P [OF d] if_P [OF n]]
  with h show ?thesis by (rule conjI)
qed

text \<open>
  Claim C3. Cleaning is idempotent: cleaning the frame that \<open>clean\<close> returned, with the
  same cleaner, returns a frame equal to it (columns, labels and cells), and every enabled
  stage of the second pass reports 0 removed rows.
\<close>

theorem clean_idempotent:
  assumes "df < length (heap w)"
  shows "returned (clean self (fst (clean self df inplace w)) inplace' (snd (clean self df inplace w)))
           = returned (clean self df inplace w)
       \<and> stdout (snd (clean self (fst (clean self df inplace w)) inplace'
                        (snd (clean self df inplace w))))
           = stdout (snd (clean self df inplace w))
           @ (if remove_duplicates self then [''Removed 0 duplicate rows.''] else [])
           @ (if remove_nulls self then [''Removed 0 rows with null values.''] else [])
           @ [''Cleaning complete. Original rows: ''
              @ str_int (int (len (returned (clean self df inplace w))))
              @ '', Final rows: ''
              @ str_int (int (len (returned (clean self df inplace w))))]"
proof -
  let ?p = "clean self df inplace w"
  have valid: "fst ?p < length (heap (snd ?p))"
    using assms by (simp add: fst_clean length_heap_clean)
  have first: "heap (snd ?p) ! fst ?p = cleaned self (heap w ! df)"
    using returned_clean [OF assms, of self inplace] by (simp add: returned_def)
  have "returned (clean self (fst ?p) inplace' (snd ?p)) = cleaned self (heap (snd ?p) ! fst ?p)"
    using valid by (rule returned_clean)
  then have frame: "returned (clean self (fst ?p) inplace' (snd ?p)) = returned ?p"
    by (simp only: first cleaned_idem returned_clean [OF assms])
  have "stdout (snd (clean self (fst ?p) inplace' (snd ?p)))
          = stdout (snd ?p) @ progress self (heap (snd ?p) ! fst ?p)"
    using valid by (rule stdout_clean)
  then have lines: "stdout (snd (clean self (fst ?p) inplace' (snd ?p)))
          = stdout (snd ?p)
           @ (if remove_duplicates self then [''Removed 0 duplicate rows.''] else [])
           @ (if remove_nulls self then [''Removed 0 rows with null values.''] else [])
           @ [''Cleaning complete. Original rows: '' @ str_int (int (len (returned ?p)))
              @ '', Final rows: '' @ str_int (int (len (returned ?p)))]"
    by (simp only: first progress_cleaned returned_clean [OF assms])
  from frame lines show ?thesis by (rule conjI)
qed

theorem clean_idempotent_witness:
  "0 < length (heap example_world)
   \<and> returned (clean cleaner1 (fst (clean cleaner1 0 False example_world)) False
                 (snd (clean cleaner1 0 False example_world)))
       = returned (clean cleaner1 0 False example_world)"
proof -
  have h: "0 < length (heap example_world)" by (simp add: example_world_def)
  show ?thesis
    using h clean_idempotent [OF h, of cleaner1 False False] by (simp only:)
qed

text \<open>
  Claim C4. Without \<open>inplace\<close>, \<open>clean\<close> leaves every object that existed before the call
  as it was, the caller's frame included, and returns a new object holding the filtered
  frame. With \<open>inplace\<close> it returns the caller's own reference, the object at that reference
  now holds the filtered frame, no object is allocated and no other object changes.
\<close>

theorem clean_copy_or_mutate:
  assumes "df < length (heap w)"
  shows "(\<forall>q<length (heap w). heap (snd (clean self df False w)) ! q = heap w ! q)
       \<and> fst (clean self df False w) = length (heap w)
       \<and> returned (clean self df False w) = cleaned self (heap w ! df)
       \<and> fst (clean self df True w) = df
       \<and> heap (snd (clean self df True w)) ! df = cleaned self (heap w ! df)
       \<and> length (heap (snd (clean self df True w))) = length (heap w)
       \<and> (\<forall>q<length (heap w). q \<noteq> df \<longrightarrow> heap (snd (clean self df True w)) ! q = heap w ! q)"
proof (intro conjI allI impI)
  fix q assume "q < length (heap w)"
  then show "heap (snd (clean self df False w)) ! q = heap w ! q" by (rule heap_clean_copy)
next
  show "fst (clean self df False w) = length (heap w)" by (simp add: clean_copy)
next
  show "returned (clean self df False w) = cleaned self (heap w ! df)"
    using assms by (rule returned_clean)
next
  show "fst (clean self df True w) = df" using assms by (simp add: clean_inplace)
next
  show "heap (snd (clean self df True w)) ! df = cleaned self (heap w ! df)"
    using assms by (simp add: clean_inplace)
next
  show "length (heap (snd (clean self df True w))) = length (heap w)"
    using assms by (simp add: clean_inplace)
next
  fix q assume "q \<noteq> df"
  with assms show "heap (snd (clean self df True w)) ! q = heap w ! q"
    by (rule heap_clean_inplace)
qed

theorem clean_copy_or_mutate_witness:
  "0 < length (heap example_world)
   \<and> heap (snd (clean cleaner1 0 False example_world)) ! 0 = example_df
   \<and> heap (snd (clean cleaner1 0 False example_world)) ! 2 = all_null_df
   \<and> fst (clean cleaner1 0 False example_world) = 4
   \<and> fst (clean cleaner1 0 True example_world) = 0
   \<and> heap (snd (clean cleaner1 0 True example_world)) ! 0 = cleaned cleaner1 example_df
   \<and> length (heap (snd (clean cleaner1 0 True example_world))) = 4
   \<and> heap (snd (clean cleaner1 0 True example_world)) ! 2 = all_null_df"
proof -
  have h: "0 < length (heap example_world)" by (simp add: example_world_def)
  have l: "length (heap example_world) = 4" by (simp add: example_world_def)
  have e0: "heap example_world ! 0 = example_df" and e2: "heap example_world ! 2 = all_null_df"
    by (simp_all add: example_world_def)
  note t = clean_copy_or_mutate [OF h, of cleaner1, unfolded l e0]
  from t have "\<forall>q<4. heap (snd (clean cleaner1 0 False example_world)) ! q = heap example_world ! q"
    by (rule conjunct1)
  then have c0: "heap (snd (clean cleaner1 0 False example_world)) ! 0 = example_df"
    and c2: "heap (snd (clean cleaner1 0 False example_world)) ! 2 = all_null_df"
    by (simp_all add: e0 e2)
  from t have f: "fst (clean cleaner1 0 False example_world) = 4"
    by (rule conjunct2 [THEN conjunct1])
  from t have rest: "fst (clean cleaner1 0 True example_world) = 0
       \<and> heap (snd (clean cleaner1 0 True example_world)) ! 0 = cleaned cleaner1 example_df
       \<and> length (heap (snd (clean cleaner1 0 True example_world))) = 4
       \<and> (\<forall>q<4. q \<noteq> 0 \<longrightarrow> heap (snd (clean cleaner1 0 True example_world)) ! q = heap example_world ! q)"
    by (rule conjunct2 [THEN conjunct2, THEN conjunct2])
  then have m: "heap (snd (clean cleaner1 0 True example_world)) ! 2 = all_null_df"
    by (simp add: e2)
  from h c0 c2 f rest m show ?thesis by simp
qed

text \<open>
  Claim C5, as the code has it. \<open>get_summary\<close> is a function of the frame alone: it has no
  access to the heap, so the frame stays as it is. On a rectangular frame its figures are
  counts over the row positions of that frame: the number of rows; the number of rows
  whose column values all equal those of a strictly earlier row, provided the frame has a
  column (without columns the figure is 0); the number of rows with an absent value; and
  a dictionary whose keys are the column names and whose entry for a name is the number
  of rows whose value is absent in the last column of that name (with distinct names:
  in that column). Each figure is computed from the frame on its own: in the example,
  row 6 is counted both as a duplicate and as a row with a null.
\<close>

theorem get_summary_counts:
  assumes "rectangular T"
  shows "total_rows (get_summary T) = len T
       \<and> duplicate_rows (get_summary T)
           = (if columns T = [] then 0 else count_rows T (is_duplicate_row T))
       \<and> rows_with_nulls (get_summary T) = count_rows T (has_null T)
       \<and> (\<forall>c<length (columns T). columns T ! c \<notin> set (drop (Suc c) (columns T)) \<longrightarrow>
              null_counts_per_column (get_summary T) (columns T ! c)
                = Some (count_rows T (null_in_column T c)))
       \<and> dom (null_counts_per_column (get_summary T)) = set (columns T)"
proof (intro conjI allI impI)
  show "total_rows (get_summary T) = len T" by (simp add: get_summary_def)
next
  show "duplicate_rows (get_summary T)
           = (if columns T = [] then 0 else count_rows T (is_duplicate_row T))"
    using assms by (simp add: get_summary_def duplicate_rows_count)
      (simp add: duplicated_def empty_def sum_bools_def)
next
  show "rows_with_nulls (get_summary T) = count_rows T (has_null T)"
    using assms by (simp add: get_summary_def rows_with_nulls_count)
next
  fix c assume c: "c < length (columns T)"
    and last: "columns T ! c \<notin> set (drop (Suc c) (columns T))"
  have "length (sum_axis0 (length (columns T)) (isnull T)) = length (columns T)"
    by (simp add: sum_axis0_def)
  from this c last
  have "to_dict (columns T) (sum_axis0 (length (columns T)) (isnull T)) (columns T ! c)
          = Some (sum_axis0 (length (columns T)) (isnull T) ! c)"
    by (rule to_dict_last)
  then show "null_counts_per_column (get_summary T) (columns T ! c)
              = Some (count_rows T (null_in_column T c))"
    using assms c by (simp add: get_summary_def column_nulls_count)
next
  show "dom (null_counts_per_column (get_summary T)) = set (columns T)"
    by (simp add: get_summary_def dom_to_dict sum_axis0_def)
qed

theorem get_summary_counts_witness:
  "rectangular example_df
   \<and> duplicate_rows (get_summary example_df) = count_rows example_df (is_duplicate_row example_df)
   \<and> rows_with_nulls (get_summary example_df) = count_rows example_df (has_null example_df)
   \<and> null_counts_per_column (get_summary example_df) ''Salary''
       = Some (count_rows example_df (null_in_column example_df 3))
   \<and> is_duplicate_row example_df 6 \<and> has_null example_df 6"
proof -
  have both: "is_duplicate_row example_df 6" "has_null example_df 6"
  proof -
    have "same_values example_df 5 6" by (simp add: same_values_def example_df_def)
    then show "is_duplicate_row example_df 6"
      unfolding is_duplicate_row_def by (rule bexI) simp
    have "snd (rows example_df ! 6) ! 3 = None" by (simp add: example_df_def)
    then show "has_null example_df 6"
      unfolding has_null_def by (rule bexI) (simp add: example_df_def)
  qed
  have r: "rectangular example_df" by (simp add: rectangular_def example_df_def)
  have c: "columns example_df \<noteq> []" "3 < length (columns example_df)"
    "columns example_df ! 3 = ''Salary''"
    "columns example_df ! 3 \<notin> set (drop (Suc 3) (columns example_df))"
    by (simp_all add: example_df_def)
  note t = get_summary_counts [OF r, unfolded if_not_P [OF c(1)]]
  from t have t2: "duplicate_rows (get_summary example_df) = count_rows example_df (is_duplicate_row example_df)"
    by (rule conjunct2 [THEN conjunct1])
  from t have t3: "rows_with_nulls (get_summary example_df) = count_rows example_df (has_null example_df)"
    by (rule conjunct2 [THEN conjunct2, THEN conjunct1])
  from t have t4: "\<forall>c<length (columns example_df).
            columns example_df ! c \<notin> set (drop (Suc c) (columns example_df)) \<longrightarrow>
            null_counts_per_column (get_summary example_df) (columns example_df ! c)
              = Some (count_rows example_df (null_in_column example_df c))"
    by (rule conjunct2 [THEN conjunct2, THEN conjunct2, THEN conjunct1])
  from t4 [rule_format, OF c(2) c(4)] have t5: "null_counts_per_column (get_summary example_df) ''Salary''
       = Some (count_rows example_df (null_in_column example_df 3))" by (simp only: c(3))
  show ?thesis
    apply (intro conjI)
         apply (rule r)
        apply (rule t2)
       apply (rule t3)
      apply (rule t5)
     apply (rule both(1))
    apply (rule both(2))
    done
qed

text \<open>
  On a frame without columns, every row after the first has all its (zero) column values
  equal to those of an earlier row, yet \<open>duplicated\<close> flags none. On a frame with two
  columns of the same name, the dictionary has the count of the second column, not
  that of the first.
\<close>

theorem get_summary_counts_counterexample:
  "duplicate_rows (get_summary no_columns) \<noteq> count_rows no_columns (is_duplicate_row no_columns)
   \<and> null_counts_per_column (get_summary same_names) (columns same_names ! 0)
       \<noteq> Some (count_rows same_names (null_in_column same_names 0))"
proof
  show "duplicate_rows (get_summary no_columns)
          \<noteq> count_rows no_columns (is_duplicate_row no_columns)"
    by code_simp
  have "null_counts_per_column (get_summary same_names) ''A'' = Some 1"
    by (simp add: get_summary_def same_names_def to_dict_def sum_axis0_def isnull_def sum_bools_def
        upt_rec)
  moreover have "count_rows same_names (null_in_column same_names 0) = 2"
    by (simp add: count_rows_def len_def same_names_def null_in_column_def upt_rec)
  moreover have "columns same_names ! 0 = ''A''" by (simp add: same_names_def)
  ultimately show "null_counts_per_column (get_summary same_names) (columns same_names ! 0)
       \<noteq> Some (count_rows same_names (null_in_column same_names 0))"
    by simp
qed

text \<open>
  Claim C6. With both flags on, \<open>clean\<close> returns \<open>dropna\<close> of \<open>drop_duplicates\<close> of the
  frame: duplicates go first. The first line printed counts the rows that \<open>duplicated\<close>
  flags, the second the rows with a null among those that are left. A row with a null
  whose cells equal those of an earlier row is flagged as a duplicate, so it is counted at
  the duplicate stage, and (labels being distinct) it is not among the rows that reach the
  null stage.
\<close>

theorem clean_stage_order:
  assumes "df < length (heap w)" and "remove_duplicates self" and "remove_nulls self"
  shows "returned (clean self df inplace w) = dropna (drop_duplicates (heap w ! df))
       \<and> stdout (snd (clean self df inplace w)) = stdout w @
           [''Removed '' @ str_int (int (sum_bools (duplicated (heap w ! df)))) @ '' duplicate rows.'',
            ''Removed ''
              @ str_int (int (sum_bools (any_axis1 (isnull (drop_duplicates (heap w ! df))))))
              @ '' rows with null values.'',
            ''Cleaning complete. Original rows: '' @ str_int (int (len (heap w ! df)))
              @ '', Final rows: '' @ str_int (int (len (dropna (drop_duplicates (heap w ! df)))))]
       \<and> (\<forall>i j. rectangular (heap w ! df) \<and> j < i \<and> i < len (heap w ! df)
                \<and> snd (rows (heap w ! df) ! j) = snd (rows (heap w ! df) ! i)
                \<and> None \<in> set (snd (rows (heap w ! df) ! i)) \<longrightarrow>
              duplicated (heap w ! df) ! i
            \<and> (distinct (map fst (rows (heap w ! df))) \<longrightarrow>
                 rows (heap w ! df) ! i \<notin> set (rows (drop_duplicates (heap w ! df)))))"
proof (intro conjI allI impI)
  show "returned (clean self df inplace w) = dropna (drop_duplicates (heap w ! df))"
    using assms by (simp add: returned_clean cleaned_def)
next
  show "stdout (snd (clean self df inplace w)) = stdout w @
           [''Removed '' @ str_int (int (sum_bools (duplicated (heap w ! df)))) @ '' duplicate rows.'',
            ''Removed ''
              @ str_int (int (sum_bools (any_axis1 (isnull (drop_duplicates (heap w ! df))))))
              @ '' rows with null values.'',
            ''Cleaning complete. Original rows: '' @ str_int (int (len (heap w ! df)))
              @ '', Final rows: '' @ str_int (int (len (dropna (drop_duplicates (heap w ! df)))))]"
    using assms by (simp only: stdout_clean progress_both)
next
  fix i j
  let ?T = "heap w ! df"
  assume a: "rectangular ?T \<and> j < i \<and> i < len ?T
                \<and> snd (rows ?T ! j) = snd (rows ?T ! i)
                \<and> None \<in> set (snd (rows ?T ! i))"
  then have i: "i < length (rows ?T)" by (simp add: len_def)
  then have "rows ?T ! i \<in> set (rows ?T)" by simp
  with a have "length (snd (rows ?T ! i)) = length (columns ?T)"
    by (simp add: rectangular_def list_all_iff)
  with a have cols: "columns ?T \<noteq> []" by auto
  with i have ne: "\<not> empty ?T" by (auto simp: empty_def)
  have "rows ?T ! j \<in> set (take i (rows ?T))" using a i by (auto simp: in_set_conv_nth)
  then have "snd (rows ?T ! j) \<in> set (take i (map snd (rows ?T)))"
    by (simp add: take_map)
  with a have "map snd (rows ?T) ! i \<in> set [] \<union> set (take i (map snd (rows ?T)))"
    using i by simp
  then show "duplicated ?T ! i"
    using ne i by (simp add: duplicated_def duplicated_scan_nth)
  {
    assume "distinct (map fst (rows ?T))"
    with i a have "rows ?T ! i \<notin> set (keep_first {} (rows ?T))"
      by (intro later_duplicate_dropped [of i _ j]) simp_all
    then show "rows ?T ! i \<notin> set (rows (drop_duplicates ?T))"
      using ne by (simp add: rows_drop_duplicates)
  }
qed

theorem clean_stage_order_witness:
  "0 < length (heap example_world) \<and> remove_duplicates cleaner1 \<and> remove_nulls cleaner1
   \<and> rectangular (heap example_world ! 0) \<and> (5::nat) < 6 \<and> 6 < len (heap example_world ! 0)
   \<and> snd (rows (heap example_world ! 0) ! 5) = snd (rows (heap example_world ! 0) ! 6)
   \<and> None \<in> set (snd (rows (heap example_world ! 0) ! 6))
   \<and> distinct (map fst (rows (heap example_world ! 0)))
   \<and> returned (clean cleaner1 0 False example_world) = dropna (drop_duplicates (heap example_world ! 0))
   \<and> duplicated (heap example_world ! 0) ! 6
   \<and> rows (heap example_world ! 0) ! 6 \<notin> set (rows (drop_duplicates (heap example_world ! 0)))"
proof -
  have h: "0 < length (heap example_world)" by (simp add: example_world_def)
  have d: "remove_duplicates cleaner1" and n: "remove_nulls cleaner1"
    by (simp_all add: cleaner1_def)
  have e: "heap example_world ! 0 = example_df" by (simp add: example_world_def)
  have r: "rectangular (heap example_world ! 0)"
    by (simp add: e rectangular_def example_df_def)
  have i: "(5::nat) < 6" "6 < len (heap example_world ! 0)" 
    "snd (rows (heap example_world ! 0) ! 5) = snd (rows (heap example_world ! 0) ! 6)"
    "None \<in> set (snd (rows (heap example_world ! 0) ! 6))"
    "distinct (map fst (rows (heap example_world ! 0)))"
    by (simp_all add: e len_def example_df_def)
  from clean_stage_order [OF h d n, of False] r i h d n show ?thesis by blast
qed

text \<open>
  Claim C7, where the code departs from it. Without an output path, \<open>clean_data\<close> derives
  one with \<open>replace\<close> without a count, which replaces every occurrence of \<open>.csv\<close> and not
  the first alone. For the file \<open>sample_data.csv.csv\<close> the call succeeds, writes
  \<open>sample_data_cleaned.csv_cleaned.csv\<close> and names it in its last line; no file
  \<open>sample_data_cleaned.csv.csv\<close> is written. For \<open>dir.csv/f.csv\<close> the derived path lies in
  the directory \<open>dir_cleaned.csv\<close>, which does not exist, and the write raises.
\<close>

theorem clean_data_replaces_every_csv:
  "fst (clean_data example_parse render ''sample_data.csv.csv'' None True True twice_csv_world)
     = Inr 1
   \<and> files (snd (clean_data example_parse render ''sample_data.csv.csv'' None True True
                   twice_csv_world)) ''sample_data_cleaned.csv_cleaned.csv''
       = Some (render (cleaned cleaner1 example_df))
   \<and> files (snd (clean_data example_parse render ''sample_data.csv.csv'' None True True
                   twice_csv_world)) ''sample_data_cleaned.csv.csv''
       = None
   \<and> last (stdout (snd (clean_data example_parse render ''sample_data.csv.csv'' None True True
                          twice_csv_world)))
       = ''Cleaned data saved to: sample_data_cleaned.csv_cleaned.csv''
   \<and> replace ''.csv'' ''_cleaned.csv'' ''dir.csv/f.csv'' = ''dir_cleaned.csv/f_cleaned.csv''
   \<and> fst (clean_data example_parse render ''dir.csv/f.csv'' None True True dir_csv_world)
       = Inl OSError"
proof -
  have p: "replace ''.csv'' ''_cleaned.csv'' ''sample_data.csv.csv''
             = ''sample_data_cleaned.csv_cleaned.csv''"
    by code_simp
  have q: "replace ''.csv'' ''_cleaned.csv'' ''dir.csv/f.csv'' = ''dir_cleaned.csv/f_cleaned.csv''"
    by code_simp
  have f: "files twice_csv_world ''sample_data.csv.csv'' = Some sample_text"
    and g: "files twice_csv_world ''sample_data_cleaned.csv.csv'' = None"
    and h: "heap twice_csv_world = []"
    and w: "writable twice_csv_world ''sample_data_cleaned.csv_cleaned.csv''"
    by (simp_all add: twice_csv_world_def)
  have e: "example_parse sample_text = Inr example_df" by (simp add: example_parse_def)
  have c: "\<lparr>remove_duplicates = True, remove_nulls = True\<rparr> = cleaner1"
    by (simp add: cleaner1_def)
  from w have w': "writable twice_csv_world
                     (replace ''.csv'' ''_cleaned.csv'' ''sample_data.csv.csv'')"
    unfolding p .
  note run = clean_data_default_run
      [where parse = example_parse and content = sample_text and df = example_df
         and w = twice_csv_world and filepath = "''sample_data.csv.csv''"
         and render = render and dups = True and nulls = True,
       OF f e w', unfolded p h c]
  have r1: "fst (clean_data example_parse render ''sample_data.csv.csv'' None True True
                   twice_csv_world) = Inr 1"
    by (simp add: run)
  have r2: "files (snd (clean_data example_parse render ''sample_data.csv.csv'' None True True
                   twice_csv_world)) ''sample_data_cleaned.csv_cleaned.csv''
       = Some (render (cleaned cleaner1 example_df))"
    by (simp add: run)
  have r3: "files (snd (clean_data example_parse render ''sample_data.csv.csv'' None True True
                   twice_csv_world)) ''sample_data_cleaned.csv.csv'' = None"
    by (simp add: run g)
  have r4: "last (stdout (snd (clean_data example_parse render ''sample_data.csv.csv'' None True
                                 True twice_csv_world)))
       = ''Cleaned data saved to: sample_data_cleaned.csv_cleaned.csv''"
    by (simp add: run)
  have f2: "files dir_csv_world ''dir.csv/f.csv'' = Some sample_text"
    by (simp add: dir_csv_world_def)
  have "\<not> writable dir_csv_world ''dir_cleaned.csv/f_cleaned.csv''"
    by (simp add: dir_csv_world_def)
  then have nw: "\<not> writable dir_csv_world (replace ''.csv'' ''_cleaned.csv'' ''dir.csv/f.csv'')"
    unfolding q .
  have r5: "fst (clean_data example_parse render ''dir.csv/f.csv'' None True True dir_csv_world)
       = Inl OSError"
    using f2 e nw
    by (rule clean_data_write_fails
          [where parse = example_parse and content = sample_text and df = example_df])
  show ?thesis
    apply (intro conjI)
         apply (rule r1)
        apply (rule r2)
       apply (rule r3)
      apply (rule r4)
     apply (rule q)
    apply (rule r5)
    done
qed

text \<open>
  Claim C8. With both flags off, the frame \<open>clean\<close> returns equals the input frame (same
  columns, labels and cells, hence the same row count). Without \<open>inplace\<close> it is a new
  object, not the caller's, and the caller's object is unchanged; with \<open>inplace\<close> it is
  the caller's object.
\<close>

theorem clean_passthrough:
  assumes "df < length (heap w)" and "\<not> remove_duplicates self" and "\<not> remove_nulls self"
  shows "returned (clean self df inplace w) = heap w ! df
       \<and> len (returned (clean self df inplace w)) = len (heap w ! df)
       \<and> fst (clean self df False w) \<noteq> df
       \<and> length (heap w) \<le> fst (clean self df False w)
       \<and> heap (snd (clean self df False w)) ! df = heap w ! df
       \<and> fst (clean self df True w) = df"
proof -
  have r: "returned (clean self df inplace w) = heap w ! df"
    using assms by (simp add: returned_clean cleaned_passthrough)
  have f: "fst (clean self df False w) = length (heap w)" by (simp add: clean_copy)
  have u: "heap (snd (clean self df False w)) ! df = heap w ! df"
    using assms(1) by (rule heap_clean_copy)
  have i: "fst (clean self df True w) = df" using assms(1) by (simp add: clean_inplace)
  from r f u i assms(1) show ?thesis by simp
qed

theorem clean_passthrough_witness:
  "0 < length (heap example_world) \<and> \<not> remove_duplicates cleaner4 \<and> \<not> remove_nulls cleaner4
   \<and> returned (clean cleaner4 0 False example_world) = example_df
   \<and> fst (clean cleaner4 0 False example_world) \<noteq> 0"
proof -
  have h: "0 < length (heap example_world)" by (simp add: example_world_def)
  have d: "\<not> remove_duplicates cleaner4" by (simp add: cleaner4_def)
  have n: "\<not> remove_nulls cleaner4" by (simp add: cleaner4_def)
  show ?thesis
    using h d n clean_passthrough [OF h d n, of False]
    by (simp add: example_world_def)
qed

text \<open>
  Claim C9. \<open>clean\<close> has no failing branch: for every frame and cleaner it returns a valid
  reference. On a frame without rows it returns a frame equal to the input and every
  enabled stage reports 0 removed rows. On a frame whose rows all contain a null, null
  removal leaves no row. On a frame with a column whose rows all have the same cells,
  duplicate removal leaves the first row alone (which null removal, if enabled, drops
  when it holds a null).
\<close>

theorem clean_total_and_empty_table:
  assumes "df < length (heap w)"
  shows "fst (clean self df inplace w) < length (heap (snd (clean self df inplace w)))
       \<and> (rows (heap w ! df) = [] \<longrightarrow>
            returned (clean self df inplace w) = heap w ! df
          \<and> stdout (snd (clean self df inplace w)) = stdout w
              @ (if remove_duplicates self then [''Removed 0 duplicate rows.''] else [])
              @ (if remove_nulls self then [''Removed 0 rows with null values.''] else [])
              @ [''Cleaning complete. Original rows: 0, Final rows: 0''])
       \<and> (remove_nulls self \<and> (\<forall>r\<in>set (rows (heap w ! df)). None \<in> set (snd r)) \<longrightarrow>
            rows (returned (clean self df inplace w)) = [])
       \<and> (remove_duplicates self \<and> columns (heap w ! df) \<noteq> [] \<and> rows (heap w ! df) \<noteq> []
            \<and> (\<forall>r\<in>set (rows (heap w ! df)). snd r = snd (hd (rows (heap w ! df)))) \<longrightarrow>
            rows (returned (clean self df inplace w))
              = (if remove_nulls self \<and> None \<in> set (snd (hd (rows (heap w ! df)))) then []
                 else [hd (rows (heap w ! df))]))"
proof (intro conjI impI)
  show "fst (clean self df inplace w) < length (heap (snd (clean self df inplace w)))"
    using assms by (simp add: fst_clean length_heap_clean)
next
  assume "rows (heap w ! df) = []"
  then show "returned (clean self df inplace w) = heap w ! df"
    using assms by (simp add: returned_clean cleaned_no_rows)
next
  assume "rows (heap w ! df) = []"
  then show "stdout (snd (clean self df inplace w)) = stdout w
              @ (if remove_duplicates self then [''Removed 0 duplicate rows.''] else [])
              @ (if remove_nulls self then [''Removed 0 rows with null values.''] else [])
              @ [''Cleaning complete. Original rows: 0, Final rows: 0'']"
    using assms by (simp only: stdout_clean progress_no_rows)
next
  assume "remove_nulls self \<and> (\<forall>r\<in>set (rows (heap w ! df)). None \<in> set (snd r))"
  then show "rows (returned (clean self df inplace w)) = []"
    using assms by (simp add: returned_clean rows_cleaned_all_null)
next
  assume a: "remove_duplicates self \<and> columns (heap w ! df) \<noteq> [] \<and> rows (heap w ! df) \<noteq> []
            \<and> (\<forall>r\<in>set (rows (heap w ! df)). snd r = snd (hd (rows (heap w ! df))))"
  from a have dup: "remove_duplicates self" by (rule conjunct1)
  from a have "columns (heap w ! df) \<noteq> []" by (rule conjunct2 [THEN conjunct1])
  moreover from a have "rows (heap w ! df) \<noteq> []"
    by (rule conjunct2 [THEN conjunct2, THEN conjunct1])
  moreover from a have "\<forall>r\<in>set (rows (heap w ! df)). snd r = snd (hd (rows (heap w ! df)))"
    by (rule conjunct2 [THEN conjunct2, THEN conjunct2])
  ultimately have one: "rows (drop_duplicates (heap w ! df)) = [hd (rows (heap w ! df))]"
    by (rule rows_drop_duplicates_all_same)
  have "rows (cleaned self (heap w ! df))
              = (if remove_nulls self \<and> None \<in> set (snd (hd (rows (heap w ! df)))) then []
                 else [hd (rows (heap w ! df))])"
    using dup by (simp add: cleaned_def Let_def rows_dropna one)
  then show "rows (returned (clean self df inplace w))
              = (if remove_nulls self \<and> None \<in> set (snd (hd (rows (heap w ! df)))) then []
                 else [hd (rows (heap w ! df))])"
    using assms by (simp only: returned_clean)
qed

theorem clean_total_and_empty_table_witness:
  "1 < length (heap example_world) \<and> rows (heap example_world ! 1) = []
   \<and> returned (clean cleaner1 1 False example_world) = empty_df
   \<and> stdout (snd (clean cleaner1 1 False example_world))
       = [''Removed 0 duplicate rows.'', ''Removed 0 rows with null values.'',
          ''Cleaning complete. Original rows: 0, Final rows: 0'']
   \<and> 2 < length (heap example_world) \<and> remove_nulls cleaner3
   \<and> list_all (\<lambda>r. None \<in> set (snd r)) (rows (heap example_world ! 2))
   \<and> rows (returned (clean cleaner3 2 False example_world)) = []
   \<and> 3 < length (heap example_world) \<and> remove_duplicates cleaner2
   \<and> columns (heap example_world ! 3) \<noteq> [] \<and> rows (heap example_world ! 3) \<noteq> []
   \<and> list_all (\<lambda>r. snd r = snd (hd (rows (heap example_world ! 3)))) (rows (heap example_world ! 3))
   \<and> rows (returned (clean cleaner2 3 False example_world)) = [(0, [Some (Str ''Bob'')])]"
proof -
  have h1: "1 < length (heap example_world)" and h2: "2 < length (heap example_world)"
    and h3: "3 < length (heap example_world)"
    by (simp_all add: example_world_def)
  have e1: "heap example_world ! 1 = empty_df" and e2: "heap example_world ! 2 = all_null_df"
    and e3: "heap example_world ! 3 = all_same_df"
    by (simp_all add: example_world_def)
  have so: "stdout example_world = []" by (simp add: example_world_def)
  have n: "remove_nulls cleaner3" and nn: "\<not> remove_nulls cleaner2"
    and d: "remove_duplicates cleaner2"
    and d1: "remove_duplicates cleaner1" and n1: "remove_nulls cleaner1"
    by (simp_all add: cleaner1_def cleaner2_def cleaner3_def)
  have "rows empty_df = []" by (simp add: empty_df_def)
  then have r1: "rows (heap example_world ! 1) = []" unfolding e1 .
  have "\<forall>r\<in>set (rows all_null_df). None \<in> set (snd r)" by (simp add: all_null_df_def)
  then have r2: "\<forall>r\<in>set (rows (heap example_world ! 2)). None \<in> set (snd r)" unfolding e2 .
  have "columns all_same_df \<noteq> []" by (simp add: all_same_df_def)
  then have r3a: "columns (heap example_world ! 3) \<noteq> []" unfolding e3 .
  have "rows all_same_df \<noteq> []" by (simp add: all_same_df_def)
  then have r3b: "rows (heap example_world ! 3) \<noteq> []" unfolding e3 .
  have "\<forall>r\<in>set (rows all_same_df). snd r = snd (hd (rows all_same_df))"
    by (simp add: all_same_df_def)
  then have r3c: "\<forall>r\<in>set (rows (heap example_world ! 3)).
                    snd r = snd (hd (rows (heap example_world ! 3)))" unfolding e3 .
  have "hd (rows all_same_df) = (0, [Some (Str ''Bob'')])" by (simp add: all_same_df_def)
  then have hd3: "hd (rows (heap example_world ! 3)) = (0, [Some (Str ''Bob'')])" unfolding e3 .
  note t1 = clean_total_and_empty_table [OF h1, of cleaner1 False]
  from t1 have "rows (heap example_world ! 1) = [] \<longrightarrow>
            returned (clean cleaner1 1 False example_world) = heap example_world ! 1
          \<and> stdout (snd (clean cleaner1 1 False example_world)) = stdout example_world
              @ (if remove_duplicates cleaner1 then [''Removed 0 duplicate rows.''] else [])
              @ (if remove_nulls cleaner1 then [''Removed 0 rows with null values.''] else [])
              @ [''Cleaning complete. Original rows: 0, Final rows: 0'']"
    by (rule conjunct2 [THEN conjunct1])
  from this r1 have both: "returned (clean cleaner1 1 False example_world) = heap example_world ! 1
          \<and> stdout (snd (clean cleaner1 1 False example_world)) = stdout example_world
              @ (if remove_duplicates cleaner1 then [''Removed 0 duplicate rows.''] else [])
              @ (if remove_nulls cleaner1 then [''Removed 0 rows with null values.''] else [])
              @ [''Cleaning complete. Original rows: 0, Final rows: 0'']"
    by (rule mp)
  from both [THEN conjunct1] have t1a: "returned (clean cleaner1 1 False example_world) = empty_df"
    unfolding e1 .
  from both [THEN conjunct2] have t1b: "stdout (snd (clean cleaner1 1 False example_world))
       = [''Removed 0 duplicate rows.'', ''Removed 0 rows with null values.'',
          ''Cleaning complete. Original rows: 0, Final rows: 0'']"
    by (simp add: so d1 n1)
  note t2 = clean_total_and_empty_table [OF h2, of cleaner3 False]
  from t2 have "remove_nulls cleaner3
                  \<and> (\<forall>r\<in>set (rows (heap example_world ! 2)). None \<in> set (snd r)) \<longrightarrow>
                rows (returned (clean cleaner3 2 False example_world)) = []"
    by (rule conjunct2 [THEN conjunct2, THEN conjunct1])
  moreover from n r2 have "remove_nulls cleaner3
                  \<and> (\<forall>r\<in>set (rows (heap example_world ! 2)). None \<in> set (snd r))"
    by (rule conjI)
  ultimately have t2a: "rows (returned (clean cleaner3 2 False example_world)) = []"
    by (rule mp)
  note t3 = clean_total_and_empty_table [OF h3, of cleaner2 False]
  from t3 have "remove_duplicates cleaner2 \<and> columns (heap example_world ! 3) \<noteq> []
            \<and> rows (heap example_world ! 3) \<noteq> []
            \<and> (\<forall>r\<in>set (rows (heap example_world ! 3)).
                  snd r = snd (hd (rows (heap example_world ! 3)))) \<longrightarrow>
            rows (returned (clean cleaner2 3 False example_world))
              = (if remove_nulls cleaner2 \<and> None \<in> set (snd (hd (rows (heap example_world ! 3))))
                 then [] else [hd (rows (heap example_world ! 3))])"
    by (rule conjunct2 [THEN conjunct2, THEN conjunct2])
  moreover from d r3a r3b r3c have "remove_duplicates cleaner2 \<and> columns (heap example_world ! 3) \<noteq> []
            \<and> rows (heap example_world ! 3) \<noteq> []
            \<and> (\<forall>r\<in>set (rows (heap example_world ! 3)).
                  snd r = snd (hd (rows (heap example_world ! 3))))"
    by (intro conjI)
  ultimately have "rows (returned (clean cleaner2 3 False example_world))
              = (if remove_nulls cleaner2 \<and> None \<in> set (snd (hd (rows (heap example_world ! 3))))
                 then [] else [hd (rows (heap example_world ! 3))])"
    by (rule mp)
  then have t3a: "rows (returned (clean cleaner2 3 False example_world)) = [(0, [Some (Str ''Bob'')])]"
    by (simp add: nn hd3)
  from r2 have r2': "list_all (\<lambda>r. None \<in> set (snd r)) (rows (heap example_world ! 2))"
    by (simp only: list_all_iff)
  from r3c have r3c': "list_all (\<lambda>r. snd r = snd (hd (rows (heap example_world ! 3))))
                         (rows (heap example_world ! 3))"
    by (simp only: list_all_iff)
  from h1 r1 t1a t1b h2 n r2' t2a h3 d r3a r3b r3c' t3a show ?thesis by (intro conjI)
qed

text \<open>
  Claim C10. \<open>clean\<close> keeps the column names and their order, and the rows of the result
  are a subsequence of the rows of the input: every retained row has its original label
  and cells, in the original order; only whole rows disappear.
\<close>

theorem clean_preserves_columns:
  assumes "df < length (heap w)"
  shows "columns (returned (clean self df inplace w)) = columns (heap w ! df)
       \<and> subseq (rows (returned (clean self df inplace w))) (rows (heap w ! df))
       \<and> set (rows (returned (clean self df inplace w))) \<subseteq> set (rows (heap w ! df))"
  using assms subseq_rows_cleaned [of self "heap w ! df"]
  by (simp add: returned_clean columns_cleaned subseq_subset)

theorem clean_preserves_columns_witness:
  "0 < length (heap example_world)
   \<and> columns (returned (clean cleaner1 0 False example_world)) = [''ID'', ''Name'', ''Age'', ''Salary'']
   \<and> subseq (rows (returned (clean cleaner1 0 False example_world))) (rows example_df)"
proof -
  have h: "0 < length (heap example_world)" by (simp add: example_world_def)
  show ?thesis
    using h clean_preserves_columns [OF h, of cleaner1 False]
    by (simp add: example_world_def example_df_def)
qed

end
